theory Spec2Isabelle
  imports Main "HOL-Library.Word"
begin

section \<open>The HTTP server runtime (pkg/object/httpserver/runtime.go)\<close>

subsection \<open>Data model\<close>

text \<open>
  The constants \<open>stateNil\<close>, \<open>stateFailed\<close>, \<open>stateRunning\<close> and \<open>stateClosed\<close>
  of type \<open>stateType\<close>.
\<close>

datatype stateType = stateNil | stateFailed | stateRunning | stateClosed

text \<open>
  A Go \<open>error\<close> is represented by the text its \<open>Error()\<close> method returns; a Go
  value of type \<open>error\<close> that may be \<open>nil\<close> is an \<open>error option\<close>. The runtime only
  ever stores \<open>fmt.Errorf("%v", err)\<close>, which keeps exactly that text.
\<close>

type_synonym error = string

definition errNil :: error where
  "errNil = ''''"

text \<open>A routing rule is opaque to the runtime; it is handed to the mux unchanged.\<close>

type_synonym Rule = string

text \<open>
  Modelled from the spec: the type \<open>Spec\<close> is declared outside runtime.go. Its fields
  are the configuration surface the specification lists: name, listen port, HTTPS flag
  with its TLS material, keep-alive flag and idle timeout string, maximum number of
  connections, and the routing rules.
\<close>

record Spec =
  Name :: string
  Port :: nat
  HTTPS :: bool
  CertBase64 :: string
  KeyBase64 :: string
  KeepAlive :: bool
  KeepAliveTimeout :: string
  MaxConnections :: int
  Rules :: "Rule list"

text \<open>
  The \<open>http.Server\<close> value built by \<open>startServer\<close>: the port of its address
  \<open>":%d"\<close>, the idle timeout in nanoseconds (a \<open>time.Duration\<close>), the keep-alive
  switch, the TLS material when HTTPS is on, and the limit given to
  \<open>netutil.LimitListener\<close>.
\<close>

record Server =
  Addr :: nat
  IdleTimeout :: int
  KeepAlivesEnabled :: bool
  TLSConfig :: "(string \<times> string) option"
  Limit :: int

text \<open>
  What the runtime does to the outside world, in program order. The two atomic cells
  \<open>state\<close> and \<open>err\<close> are written one store at a time; each store is recorded, so
  the contents of the cells between any two stores can be replayed.
\<close>

datatype action =
    ReloadRules Spec            \<comment> \<open>\<open>r.mux.reloadRules(nextSpec)\<close>\<close>
  | Listen nat                  \<comment> \<open>\<open>gnet.Listen("tcp", ":port")\<close>\<close>
  | Serve bool "64 word"        \<comment> \<open>\<open>go func(https, startNum)\<close>: the serving goroutine\<close>
  | Shutdown                    \<comment> \<open>\<open>r.server.Shutdown(ctx)\<close>\<close>
  | CloseDone                   \<comment> \<open>\<open>close(e.done)\<close>\<close>
  | Logged string               \<comment> \<open>\<open>logger.Errorf\<close> / \<open>logger.Warnf\<close>\<close>
  | StoreState stateType        \<comment> \<open>\<open>r.state.Store\<close>\<close>
  | StoreError error            \<comment> \<open>\<open>r.err.Store\<close>\<close>

text \<open>
  The fields of \<open>runtime\<close> that the event loop owns. \<open>err\<close> is an \<open>atomic.Value\<close>:
  \<open>None\<close> is the cell nothing was stored in, for which \<open>getError\<close> returns \<open>nil\<close>.
  \<open>mux\<close> holds the rules last given to \<open>reloadRules\<close>. \<open>trace\<close> is the record of
  actions so far.
\<close>

record runtime =
  spec :: "Spec option"
  server :: "Server option"
  mux :: "Rule list"
  startNum :: "64 word"
  state :: stateType
  err :: "error option"
  trace :: "action list"

datatype event =
    eventStart
  | eventCheckFailed
  | eventServeFailed "64 word" "error option"
  | eventReload "Spec option"
  | eventClose
  | eventUnknown

text \<open>A nil pointer dereference stops the goroutine that runs into it.\<close>

datatype panic = NilPointerDereference

text \<open>
  What the environment answers while one event is handled: whether
  \<open>gnet.Listen\<close> on a port fails, whether \<open>Server.Shutdown\<close> fails, and what
  \<open>time.ParseDuration\<close> makes of a string (nanoseconds, \<open>None\<close> for a parse error).
\<close>

record env =
  listen :: "nat \<Rightarrow> error option"
  shutdown :: "error option"
  parseDuration :: "string \<Rightarrow> int option"

subsection \<open>Operations\<close>

definition defaultKeepAliveTimeout :: int where
  "defaultKeepAliveTimeout = 60 * 1000000000"

definition act :: "action \<Rightarrow> runtime \<Rightarrow> runtime" where
  "act a r = r\<lparr>trace := trace r @ [a]\<rparr>"

definition setState :: "stateType \<Rightarrow> runtime \<Rightarrow> runtime" where
  "setState s r = act (StoreState s) (r\<lparr>state := s\<rparr>)"

definition getState :: "runtime \<Rightarrow> stateType" where
  "getState r = state r"

definition setError :: "error option \<Rightarrow> runtime \<Rightarrow> runtime" where
  "setError e r =
     (case e of
        None \<Rightarrow> act (StoreError errNil) (r\<lparr>err := Some errNil\<rparr>)
      | Some x \<Rightarrow> act (StoreError x) (r\<lparr>err := Some x\<rparr>))"

definition getError :: "runtime \<Rightarrow> error option" where
  "getError r = err r"

text \<open>
  \<open>newRuntime\<close>: the mux is empty, and \<open>stateNil\<close> and \<open>errNil\<close> are stored before
  the event loop and the watchdog are started and before the runtime is handed out.
  The trace starts here.
\<close>

definition newRuntime :: runtime where
  "newRuntime = \<lparr>spec = None, server = None, mux = [], startNum = 0,
                  state = stateNil, err = Some errNil, trace = []\<rparr>"

record Status =
  State :: stateType
  Error :: string

text \<open>
  \<open>Status\<close> runs on the caller's goroutine and loads the two cells one after the
  other, then calls \<open>Error()\<close> on the error it loaded; on \<open>nil\<close> that panics.
  \<open>Status_at s e\<close> is what it returns when \<open>getState\<close> loads \<open>s\<close> and
  \<open>getError\<close> loads \<open>e\<close>. The request statistics and the top-N list come from
  other packages and are left out.
\<close>

definition Status_at :: "stateType \<Rightarrow> error option \<Rightarrow> panic + Status" where
  "Status_at s e =
     (case e of
        None \<Rightarrow> Inl NilPointerDereference
      | Some x \<Rightarrow> Inr \<lparr>State = s, Error = x\<rparr>)"

definition runtime_Status :: "runtime \<Rightarrow> panic + Status" where
  "runtime_Status r = Status_at (getState r) (getError r)"

text \<open>
  \<open>needRestartServer\<close> copies both configurations, sets the rules of both copies to
  nil and compares the copies with \<open>reflect.DeepEqual\<close>.
\<close>

definition needRestartServer :: "runtime \<Rightarrow> Spec \<Rightarrow> panic + bool" where
  "needRestartServer r nextSpec =
     (case spec r of
        None \<Rightarrow> Inl NilPointerDereference
      | Some x \<Rightarrow> Inr (x\<lparr>Rules := []\<rparr> \<noteq> nextSpec\<lparr>Rules := []\<rparr>))"

text \<open>
  \<open>startServer\<close> reads \<open>r.spec\<close> without a nil check. The TLS configuration that
  \<open>r.spec.tlsConfig()\<close> builds is represented by the certificate and key it is built
  from. A failed bind returns before the server, the generation and the state running
  are written.
\<close>

definition startServer :: "env \<Rightarrow> runtime \<Rightarrow> panic + runtime" where
  "startServer en r =
     (case spec r of
        None \<Rightarrow> Inl NilPointerDereference
      | Some s \<Rightarrow>
          let (keepAliveTimeout, r1) =
                (if KeepAliveTimeout s \<noteq> '''' then
                   (case parseDuration en (KeepAliveTimeout s) of
                      None \<Rightarrow> (defaultKeepAliveTimeout,
                                act (Logged ''BUG: parse duration failed'') r)
                    | Some t \<Rightarrow> (t, r))
                 else (defaultKeepAliveTimeout, r));
              r2 = act (Listen (Port s)) r1
          in (case listen en (Port s) of
                Some e \<Rightarrow> Inr (setError (Some e) (setState stateFailed r2))
              | None \<Rightarrow>
                  let srv = \<lparr>Addr = Port s, IdleTimeout = keepAliveTimeout,
                             KeepAlivesEnabled = KeepAlive s,
                             TLSConfig = (if HTTPS s then Some (CertBase64 s, KeyBase64 s)
                                          else None),
                             Limit = MaxConnections s\<rparr>;
                      r3 = r2\<lparr>server := Some srv\<rparr>;
                      r4 = r3\<lparr>startNum := startNum r3 + 1\<rparr>;
                      r5 = setState stateRunning r4;
                      r6 = setError None r5
                  in Inr (act (Serve (HTTPS s) (startNum r6)) r6)))"

text \<open>
  \<open>closeServer\<close> does nothing without a server. The warning about a failed shutdown
  reads \<open>r.spec.Name\<close>. The server field is not cleared.
\<close>

definition closeServer :: "env \<Rightarrow> runtime \<Rightarrow> panic + runtime" where
  "closeServer en r =
     (case server r of
        None \<Rightarrow> Inr r
      | Some srv \<Rightarrow>
          let r1 = act Shutdown r
          in (case shutdown en of
                None \<Rightarrow> Inr r1
              | Some e \<Rightarrow>
                  (case spec r1 of
                     None \<Rightarrow> Inl NilPointerDereference
                   | Some s \<Rightarrow> Inr (act (Logged ''shutdown httpserver failed'') r1))))"

text \<open>
  Modelled from the spec: the mux is declared in another file of the package. Its
  \<open>reloadRules\<close> is the routing dispatcher's hot-swap entry point: it receives the next
  configuration and serves by that configuration's rules from then on.
\<close>

definition reloadRules :: "Spec \<Rightarrow> runtime \<Rightarrow> runtime" where
  "reloadRules nextSpec r = act (ReloadRules nextSpec) (r\<lparr>mux := Rules nextSpec\<rparr>)"

definition reload :: "env \<Rightarrow> Spec option \<Rightarrow> runtime \<Rightarrow> panic + runtime" where
  "reload en nextSpec r =
     (let r1 = (case nextSpec of None \<Rightarrow> r | Some n \<Rightarrow> reloadRules n r)
      in case (spec r1, nextSpec) of
           (None, None) \<Rightarrow> Inr (act (Logged ''BUG: nextSpec is nil'') r1)
         | (None, Some n) \<Rightarrow> startServer en (r1\<lparr>spec := Some n\<rparr>)
         | (Some c, None) \<Rightarrow>
             closeServer en ((act (Logged ''BUG: nextSpec is nil'') r1)\<lparr>spec := None\<rparr>)
         | (Some c, Some n) \<Rightarrow>
             (case needRestartServer r1 n of
                Inl p \<Rightarrow> Inl p
              | Inr True \<Rightarrow>
                  (case closeServer en (r1\<lparr>spec := Some n\<rparr>) of
                     Inl p \<Rightarrow> Inl p
                   | Inr r2 \<Rightarrow> startServer en r2)
              | Inr False \<Rightarrow> Inr (r1\<lparr>spec := Some n\<rparr>)))"

definition handleEventStart :: "env \<Rightarrow> runtime \<Rightarrow> panic + runtime" where
  "handleEventStart en r = startServer en r"

definition handleEventCheckFailed :: "env \<Rightarrow> runtime \<Rightarrow> panic + runtime" where
  "handleEventCheckFailed en r =
     (if getState r = stateFailed then startServer en r else Inr r)"

definition handleEventServeFailed :: "64 word \<Rightarrow> error option \<Rightarrow> runtime \<Rightarrow> runtime" where
  "handleEventServeFailed e_startNum e_err r =
     (if startNum r > e_startNum then r
      else setError e_err (setState stateFailed r))"

definition handleEventReload :: "env \<Rightarrow> Spec option \<Rightarrow> runtime \<Rightarrow> panic + runtime" where
  "handleEventReload en nextSpec r = reload en nextSpec r"

definition handleEventClose :: "env \<Rightarrow> runtime \<Rightarrow> panic + runtime" where
  "handleEventClose en r =
     (case closeServer en r of
        Inl p \<Rightarrow> Inl p
      | Inr r1 \<Rightarrow> Inr (act CloseDone r1))"

text \<open>
  The event loop. It takes the events in the order they arrive, each with what the
  environment answers while it is handled. When the events run out the loop waits on
  the channel; after a close event it returns, and the events behind it stay
  unprocessed in the channel.
\<close>

datatype loop = Waiting runtime | Returned runtime "(env \<times> event) list"

fun runtime_of :: "loop \<Rightarrow> runtime" where
  "runtime_of (Waiting r) = r"
| "runtime_of (Returned r es) = r"

fun fsm :: "(env \<times> event) list \<Rightarrow> runtime \<Rightarrow> panic + loop" where
  "fsm [] r = Inr (Waiting r)"
| "fsm ((en, eventStart) # es) r =
     (case handleEventStart en r of Inl p \<Rightarrow> Inl p | Inr r' \<Rightarrow> fsm es r')"
| "fsm ((en, eventCheckFailed) # es) r =
     (case handleEventCheckFailed en r of Inl p \<Rightarrow> Inl p | Inr r' \<Rightarrow> fsm es r')"
| "fsm ((en, eventServeFailed n e) # es) r = fsm es (handleEventServeFailed n e r)"
| "fsm ((en, eventReload nextSpec) # es) r =
     (case handleEventReload en nextSpec r of Inl p \<Rightarrow> Inl p | Inr r' \<Rightarrow> fsm es r')"
| "fsm ((en, eventClose) # es) r =
     (case handleEventClose en r of Inl p \<Rightarrow> Inl p | Inr r' \<Rightarrow> Inr (Returned r' es))"
| "fsm ((en, eventUnknown) # es) r = fsm es (act (Logged ''BUG: unknown event'') r)"

text \<open>
  One tick of the watchdog \<open>checkFailed\<close>: in state failed it sends a check-failed
  event, in state closed it stops the ticker and returns, otherwise it does nothing.
\<close>

datatype tick = SendCheckFailed | StopTicker | NextTick

definition checkFailed :: "runtime \<Rightarrow> tick" where
  "checkFailed r =
     (if getState r = stateFailed then SendCheckFailed
      else if getState r = stateClosed then StopTicker
      else NextTick)"

subsection \<open>What a concurrent status query can see\<close>

text \<open>
  Replaying the stores of a trace from the contents of the cells at its beginning gives
  the contents of the cells before the first action and after each action. A status
  query that runs between two actions of the event loop loads such a pair.
\<close>

fun store :: "action \<Rightarrow> stateType \<times> error option \<Rightarrow> stateType \<times> error option" where
  "store (StoreState s) (st, e) = (s, e)"
| "store (StoreError x) (st, e) = (st, Some x)"
| "store a c = c"

fun snapshots ::
  "action list \<Rightarrow> stateType \<times> error option \<Rightarrow> (stateType \<times> error option) list" where
  "snapshots [] c = [c]"
| "snapshots (a # as) c = c # snapshots as (store a c)"

definition cells :: "runtime \<Rightarrow> stateType \<times> error option" where
  "cells r = (state r, err r)"

text \<open>The actions that start or stop a server.\<close>

fun server_op :: "action \<Rightarrow> bool" where
  "server_op (Listen p) = True"
| "server_op (Serve h n) = True"
| "server_op Shutdown = True"
| "server_op a = False"

text \<open>
  The transitions of \<open>state\<close> that the specification allows, in its words:
  uninitialized to running, running to failed, failed to running, failed to closed,
  running to closed.
\<close>

definition spec_edges :: "(stateType \<times> stateType) set" where
  "spec_edges = {(stateNil, stateRunning), (stateRunning, stateFailed),
                 (stateFailed, stateRunning), (stateFailed, stateClosed),
                 (stateRunning, stateClosed)}"

subsection \<open>Example configurations and environments\<close>

definition spec8080 :: Spec where
  "spec8080 = \<lparr>Name = ''demo'', Port = 8080, HTTPS = False, CertBase64 = [],
                KeyBase64 = [], KeepAlive = True, KeepAliveTimeout = ''60s'',
                MaxConnections = 100, Rules = [''/a'']\<rparr>"

definition spec9090 :: Spec where
  "spec9090 = spec8080\<lparr>Port := 9090\<rparr>"

definition parse_example :: "string \<Rightarrow> int option" where
  "parse_example s = (if s = ''60s'' then Some 60000000000
                      else if s = ''5s'' then Some 5000000000 else None)"

text \<open>Every bind succeeds and every shutdown is clean.\<close>

definition envOK :: env where
  "envOK = \<lparr>listen = (\<lambda>p. None), shutdown = None, parseDuration = parse_example\<rparr>"

text \<open>Every bind fails: the port is taken.\<close>

definition envBusy :: env where
  "envBusy = \<lparr>listen = (\<lambda>p. Some ''address already in use''), shutdown = None,
               parseDuration = parse_example\<rparr>"

text \<open>
  The runtime after a first reload with \<open>spec8080\<close> whose bind succeeded: generation 1,
  state running.
\<close>

definition running8080 :: runtime where
  "running8080 =
     \<lparr>spec = Some spec8080,
      server = Some \<lparr>Addr = 8080, IdleTimeout = 60000000000, KeepAlivesEnabled = True,
                      TLSConfig = None, Limit = 100\<rparr>,
      mux = [''/a''], startNum = 1, state = stateRunning, err = Some errNil,
      trace = [ReloadRules spec8080, Listen 8080, StoreState stateRunning,
               StoreError errNil, Serve False 1]\<rparr>"

text \<open>
  The runtime after a first reload with \<open>spec8080\<close> whose bind failed: no server,
  generation 0, state failed with the bind error.
\<close>

definition failed8080 :: runtime where
  "failed8080 =
     \<lparr>spec = Some spec8080, server = None, mux = [''/a''], startNum = 0,
      state = stateFailed, err = Some ''address already in use'',
      trace = [ReloadRules spec8080, Listen 8080, StoreState stateFailed,
               StoreError ''address already in use'']\<rparr>"

text \<open>
  The runtime after that failed bind and a retry that succeeded: generation 1, state
  running.
\<close>

definition recovered8080 :: runtime where
  "recovered8080 =
     running8080\<lparr>trace := [ReloadRules spec8080, Listen 8080, StoreState stateFailed,
                              StoreError ''address already in use'', Listen 8080,
                              StoreState stateRunning, StoreError errNil, Serve False 1]\<rparr>"

subsection \<open>What holds between two events\<close>

text \<open>
  When the event loop is not inside a handler: the error cell is filled, a running
  runtime has the empty error, the state closed has not been stored, and replaying the
  stores of the trace gives the present contents of the two cells.
\<close>

definition cells_inv :: "runtime \<Rightarrow> bool" where
  "cells_inv r \<longleftrightarrow>
     err r \<noteq> None \<and> (state r = stateRunning \<longrightarrow> err r = Some errNil) \<and>
     state r \<noteq> stateClosed \<and> fold store (trace r) (cells newRuntime) = cells r"

subsection \<open>Status queries that overlap the event loop\<close>

text \<open>
  \<open>after_each tr c\<close> pairs every action of a trace with the contents of the two cells
  right after it, starting from the contents \<open>c\<close>.
\<close>

fun after_each ::
  "action list \<Rightarrow> stateType \<times> error option \<Rightarrow> (action \<times> stateType \<times> error option) list" where
  "after_each [] c = []"
| "after_each (a # as) c = (a, store a c) # after_each as (store a c)"

text \<open>
  \<open>Status\<close> builds its result from \<open>r.getState()\<close> first and
  \<open>r.getError().Error()\<close> second, with no lock around the two loads. In
  \<open>Status_loads snaps i j\<close> the state is loaded after \<open>i\<close> actions of the event loop
  and the error after \<open>j\<close> actions, where \<open>snaps\<close> are the snapshots of the trace;
  \<open>None\<close> when the error would be loaded before the state or the trace is shorter.
\<close>

definition Status_loads ::
  "(stateType \<times> error option) list \<Rightarrow> nat \<Rightarrow> nat \<Rightarrow> (panic + Status) option" where
  "Status_loads snaps i j =
     (if i \<le> j \<and> j < length snaps then Some (Status_at (fst (snaps ! i)) (snd (snaps ! j)))
      else None)"

text \<open>Cells that read running without the empty error.\<close>

definition torn :: "stateType \<times> error option \<Rightarrow> bool" where
  "torn c \<longleftrightarrow> fst c = stateRunning \<and> snd c \<noteq> Some errNil"

text \<open>
  Actions after which the cells read running without the empty error only right after
  the store of running, and never read closed.
\<close>

definition good_acts :: "stateType \<times> error option \<Rightarrow> action list \<Rightarrow> bool" where
  "good_acts c acts \<longleftrightarrow>
     (\<forall>(a, c')\<in>set (after_each acts c).
        (torn c' \<longrightarrow> a = StoreState stateRunning) \<and> fst c' \<noteq> stateClosed)"

definition window_inv :: "runtime \<Rightarrow> bool" where
  "window_inv r \<longleftrightarrow>
     cells_inv r \<and>
     (\<forall>(a, c)\<in>set (after_each (trace r) (cells newRuntime)).
        (torn c \<longrightarrow> a = StoreState stateRunning) \<and> fst c \<noteq> stateClosed)"

section \<open>The python plugin configuration (pkg/plugins/python.go)\<close>

text \<open>
  \<open>pythonConfig\<close> embeds an \<open>interpreterRunnerConfig\<close>, whose type and \<open>Prepare\<close>
  method are declared in another file of the package; the type is a parameter here.
\<close>

record 'b pythonConfig =
  interpreterRunnerConfig :: 'b
  Version :: string
  cmd :: string

text \<open>
  \<open>Prepare\<close> returns the error (or \<open>None\<close> for \<open>nil\<close>), the configuration as it
  leaves it, and the warnings it logs. Its parameters are what it calls outside this
  file: \<open>basePrepare\<close> is \<open>interpreterRunnerConfig.Prepare\<close>, \<open>TrimSpace\<close> is
  \<open>strings.TrimSpace\<close>, and \<open>cmdRun name args\<close> is the result of
  \<open>exec.Command(name, args...).Run()\<close>.
\<close>

definition Prepare ::
  "('b \<Rightarrow> string list \<Rightarrow> error option \<times> 'b) \<Rightarrow> (string \<Rightarrow> string) \<Rightarrow>
   (string \<Rightarrow> string list \<Rightarrow> error option) \<Rightarrow>
   string list \<Rightarrow> 'b pythonConfig \<Rightarrow> error option \<times> 'b pythonConfig \<times> string list" where
  "Prepare basePrepare TrimSpace cmdRun pipelineNames c =
     (case basePrepare (interpreterRunnerConfig c) pipelineNames of
        (Some e, b) \<Rightarrow> (Some e, c\<lparr>interpreterRunnerConfig := b\<rparr>, [])
      | (None, b) \<Rightarrow>
          let c1 = c\<lparr>interpreterRunnerConfig := b, Version := TrimSpace (Version c)\<rparr>
          in (case (if Version c1 = ''2'' then Some (c1\<lparr>cmd := ''python2''\<rparr>)
                    else if Version c1 = ''3'' then Some (c1\<lparr>cmd := ''python3''\<rparr>)
                    else None) of
                None \<Rightarrow> (Some ''invalid python version'', c1, [])
              | Some c2 \<Rightarrow>
                  (None, c2,
                   if cmdRun (cmd c2) [''-c'', []] \<noteq> None
                   then [''[python interpreter (version='' @ Version c2 @
                         '') is not ready, python plugin will runs unsuccessfully!]'']
                   else [])))"

text \<open>
  \<open>strings.TrimSpace\<close> of the Go library, on the bytes of a string: it removes the
  leading and then the trailing white space as Unicode defines it. A white space
  character is one of the six ASCII bytes tab, line feed, vertical tab, form feed,
  carriage return and space, or the UTF-8 encoding of U+0085, U+00A0 (two bytes), or
  of U+1680, U+2000 to U+200A, U+2028, U+2029, U+202F, U+205F, U+3000 (three bytes).
  Bytes that are not valid UTF-8 decode to the replacement character, which is not
  white space, so trimming stops there. It is the trim function of the examples.
\<close>

definition asciiSpace :: "char \<Rightarrow> bool" where
  "asciiSpace ch \<longleftrightarrow> ch \<in> {CHR 0x09, CHR 0x0A, CHR 0x0B, CHR 0x0C, CHR 0x0D, CHR 0x20}"

definition space2 :: "char \<Rightarrow> char \<Rightarrow> bool" where
  "space2 a b \<longleftrightarrow> a = CHR 0xC2 \<and> b \<in> {CHR 0x85, CHR 0xA0}"

definition space3 :: "char \<Rightarrow> char \<Rightarrow> char \<Rightarrow> bool" where
  "space3 a b c \<longleftrightarrow>
     a = CHR 0xE1 \<and> b = CHR 0x9A \<and> c = CHR 0x80 \<or>
     a = CHR 0xE2 \<and> b = CHR 0x80 \<and>
       c \<in> {CHR 0x80, CHR 0x81, CHR 0x82, CHR 0x83, CHR 0x84, CHR 0x85, CHR 0x86, CHR 0x87,
            CHR 0x88, CHR 0x89, CHR 0x8A, CHR 0xA8, CHR 0xA9, CHR 0xAF} \<or>
     a = CHR 0xE2 \<and> b = CHR 0x81 \<and> c = CHR 0x9F \<or>
     a = CHR 0xE3 \<and> b = CHR 0x80 \<and> c = CHR 0x80"

fun TrimLeftSpace :: "string \<Rightarrow> string" where
  "TrimLeftSpace (a # b # c # s) =
     (if asciiSpace a then TrimLeftSpace (b # c # s)
      else if space2 a b then TrimLeftSpace (c # s)
      else if space3 a b c then TrimLeftSpace s
      else a # b # c # s)"
| "TrimLeftSpace [a, b] =
     (if asciiSpace a then TrimLeftSpace [b] else if space2 a b then [] else [a, b])"
| "TrimLeftSpace [a] = (if asciiSpace a then [] else [a])"
| "TrimLeftSpace [] = []"

text \<open>The trailing white space, on the reversed string: its head is the last byte.\<close>

fun TrimRightSpace_rev :: "string \<Rightarrow> string" where
  "TrimRightSpace_rev (c # b # a # s) =
     (if asciiSpace c then TrimRightSpace_rev (b # a # s)
      else if space2 b c then TrimRightSpace_rev (a # s)
      else if space3 a b c then TrimRightSpace_rev s
      else c # b # a # s)"
| "TrimRightSpace_rev [c, b] =
     (if asciiSpace c then TrimRightSpace_rev [b] else if space2 b c then [] else [c, b])"
| "TrimRightSpace_rev [c] = (if asciiSpace c then [] else [c])"
| "TrimRightSpace_rev [] = []"

definition strings_TrimSpace :: "string \<Rightarrow> string" where
  "strings_TrimSpace s = rev (TrimRightSpace_rev (rev (TrimLeftSpace s)))"

section \<open>Properties of the event handlers\<close>

subsection \<open>Fields after an action or a store\<close>

lemma act_fields [simp]:
  "spec (act a r) = spec r" "server (act a r) = server r" "mux (act a r) = mux r"
  "startNum (act a r) = startNum r" "state (act a r) = state r" "err (act a r) = err r"
  "trace (act a r) = trace r @ [a]"
  by (simp_all add: act_def)

lemma setState_fields [simp]:
  "spec (setState s r) = spec r" "server (setState s r) = server r"
  "mux (setState s r) = mux r" "startNum (setState s r) = startNum r"
  "state (setState s r) = s" "err (setState s r) = err r"
  "trace (setState s r) = trace r @ [StoreState s]"
  by (simp_all add: setState_def)

lemma setError_fields [simp]:
  "spec (setError e r) = spec r" "server (setError e r) = server r"
  "mux (setError e r) = mux r" "startNum (setError e r) = startNum r"
  "state (setError e r) = state r"
  "err (setError e r) = Some (case e of None \<Rightarrow> errNil | Some x \<Rightarrow> x)"
  "trace (setError e r) = trace r @ [StoreError (case e of None \<Rightarrow> errNil | Some x \<Rightarrow> x)]"
  by (simp_all add: setError_def split: option.split)

lemmas run_defs =
  spec8080_def spec9090_def envOK_def envBusy_def parse_example_def newRuntime_def
  running8080_def handleEventReload_def reload_def reloadRules_def act_def startServer_def
  closeServer_def needRestartServer_def setState_def setError_def handleEventClose_def
  handleEventCheckFailed_def handleEventServeFailed_def handleEventStart_def getState_def
  getError_def errNil_def defaultKeepAliveTimeout_def checkFailed_def cells_def

lemma running8080_reached:
  "fsm [(envOK, eventReload (Some spec8080))] newRuntime = Inr (Waiting running8080)"
  by (simp add: run_defs)

subsection \<open>Stale and current failure reports\<close>

text \<open>
  C1. A serve-failed event whose generation number is older than the runtime's current
  one changes nothing: state and error stay as they are. Any other serve-failed event
  sets the state to failed and stores the error it carries (the empty error for nil).
\<close>

theorem serve_failed_stale_or_recorded:
  "(n < startNum r \<longrightarrow>
      state (handleEventServeFailed n e r) = state r \<and>
      err (handleEventServeFailed n e r) = err r \<and>
      handleEventServeFailed n e r = r) \<and>
   (\<not> n < startNum r \<longrightarrow>
      state (handleEventServeFailed n e r) = stateFailed \<and>
      err (handleEventServeFailed n e r) = Some (case e of None \<Rightarrow> errNil | Some x \<Rightarrow> x))"
  by (simp add: handleEventServeFailed_def)

theorem serve_failed_stale_or_recorded_witness:
  "(1::64 word) < startNum (running8080\<lparr>startNum := 2\<rparr>) \<and>
   handleEventServeFailed 1 (Some ''boom'') (running8080\<lparr>startNum := 2\<rparr>)
     = running8080\<lparr>startNum := 2\<rparr> \<and>
   \<not> (1::64 word) < startNum running8080 \<and>
   state (handleEventServeFailed 1 (Some ''boom'') running8080) = stateFailed \<and>
   err (handleEventServeFailed 1 (Some ''boom'') running8080) = Some ''boom''"
  using serve_failed_stale_or_recorded [of 1 "running8080\<lparr>startNum := 2\<rparr>" "Some ''boom''"]
        serve_failed_stale_or_recorded [of 1 running8080 "Some ''boom''"]
  by (simp add: running8080_def)

subsection \<open>Close\<close>

text \<open>
  What \<open>handleEventClose\<close> does: it shuts the server down if there is one and closes
  the done channel. It stores nothing in the state cell.
\<close>

lemma handleEventClose_effect:
  "handleEventClose en r = Inr r' \<Longrightarrow>
     state r' = state r \<and> err r' = err r \<and>
     (\<exists>lg. trace r' = trace r @ (case server r of None \<Rightarrow> [] | Some v \<Rightarrow> [Shutdown])
                        @ lg @ [CloseDone] \<and>
           (\<forall>a\<in>set lg. \<exists>m. a = Logged m))"
  by (auto simp: handleEventClose_def closeServer_def Let_def split: sum.splits option.splits)

lemma fsm_close_returns:
  "fsm ((en, eventClose) # es) r = Inr l \<Longrightarrow> \<exists>r'. l = Returned r' es"
  by (auto split: sum.splits)

text \<open>
  C2. A close event on a runtime that is running on port 8080: the server is shut
  down, the done channel is closed and the loop returns, but the state read afterwards
  is still running, not closed, and the watchdog, which stops only when it reads
  closed, goes on to its next tick.
\<close>

theorem close_keeps_state:
  "fsm [(envOK, eventReload (Some spec8080)), (envOK, eventClose)] newRuntime
     = Inr (Returned (running8080\<lparr>trace := trace running8080 @ [Shutdown, CloseDone]\<rparr>) []) \<and>
   state (running8080\<lparr>trace := trace running8080 @ [Shutdown, CloseDone]\<rparr>) = stateRunning \<and>
   checkFailed (running8080\<lparr>trace := trace running8080 @ [Shutdown, CloseDone]\<rparr>) = NextTick"
  by (simp add: run_defs)

subsection \<open>Invariants of the event loop\<close>

text \<open>
  A property that every handler preserves holds of the runtime the loop ends with,
  whenever the loop does not panic.
\<close>

lemma fsm_preserves:
  assumes init: "I r"
    and run: "fsm es r = Inr l"
    and step_start: "\<And>en r r'. I r \<Longrightarrow> handleEventStart en r = Inr r' \<Longrightarrow> I r'"
    and step_check: "\<And>en r r'. I r \<Longrightarrow> handleEventCheckFailed en r = Inr r' \<Longrightarrow> I r'"
    and step_serve: "\<And>n e r. I r \<Longrightarrow> I (handleEventServeFailed n e r)"
    and step_reload: "\<And>en ns r r'. I r \<Longrightarrow> handleEventReload en ns r = Inr r' \<Longrightarrow> I r'"
    and step_close: "\<And>en r r'. I r \<Longrightarrow> handleEventClose en r = Inr r' \<Longrightarrow> I r'"
    and step_log: "\<And>m r. I r \<Longrightarrow> I (act (Logged m) r)"
  shows "I (runtime_of l)"
  using init run
proof (induction es r rule: fsm.induct)
  case (1 r)
  then show ?case by auto
next
  case (2 en es r)
  then show ?case by (auto split: sum.splits dest: step_start)
next
  case (3 en es r)
  then show ?case by (auto split: sum.splits dest: step_check)
next
  case (4 en n e es r)
  then show ?case by (auto dest: step_serve)
next
  case (5 en nextSpec es r)
  then show ?case by (auto split: sum.splits dest: step_reload)
next
  case (6 en es r)
  then show ?case by (auto split: sum.splits dest: step_close)
next
  case (7 en es r)
  then show ?case by (auto dest: step_log)
qed

lemma snapshots_not_Nil [simp]: "snapshots as c \<noteq> []"
  by (cases as) auto

lemma last_snapshots: "last (snapshots as c) = fold store as c"
  by (induction as arbitrary: c) auto

lemma snapshots_err_stored:
  "snd c \<noteq> None \<Longrightarrow> \<forall>c'\<in>set (snapshots as c). snd c' \<noteq> None"
proof (induction as arbitrary: c)
  case Nil
  then show ?case by simp
next
  case (Cons a as)
  have "snd (store a c) \<noteq> None"
    using Cons.prems by (cases "(a, c)" rule: store.cases) auto
  with Cons show ?case by auto
qed

lemma inv_newRuntime: "cells_inv newRuntime"
  by (simp add: cells_inv_def newRuntime_def cells_def)

lemma inv_log: "cells_inv r \<Longrightarrow> cells_inv (act (Logged m) r)"
  by (simp add: cells_inv_def cells_def)

lemma inv_startServer: "cells_inv r \<Longrightarrow> startServer en r = Inr r' \<Longrightarrow> cells_inv r'"
  by (auto simp: cells_inv_def cells_def startServer_def Let_def split: option.splits if_splits)

lemma inv_closeServer: "cells_inv r \<Longrightarrow> closeServer en r = Inr r' \<Longrightarrow> cells_inv r'"
  by (auto simp: cells_inv_def cells_def closeServer_def Let_def split: option.splits if_splits)

lemma inv_serve: "cells_inv r \<Longrightarrow> cells_inv (handleEventServeFailed n e r)"
  by (auto simp: cells_inv_def cells_def handleEventServeFailed_def split: option.splits)

lemma inv_spec_update: "cells_inv r \<Longrightarrow> cells_inv (r\<lparr>spec := s\<rparr>)"
  by (simp add: cells_inv_def cells_def)

lemma inv_reloadRules: "cells_inv r \<Longrightarrow> cells_inv (reloadRules n r)"
  by (simp add: cells_inv_def cells_def reloadRules_def)

lemma inv_reload:
  assumes "cells_inv r" and "handleEventReload en ns r = Inr r'"
  shows "cells_inv r'"
proof (cases ns)
  case None
  show ?thesis
  proof (cases "spec r")
    case N: None
    with None assms show ?thesis
      by (auto simp: handleEventReload_def reload_def intro: inv_log)
  next
    case (Some c)
    with None assms
    have "closeServer en ((act (Logged ''BUG: nextSpec is nil'') r)\<lparr>spec := None\<rparr>) = Inr r'"
      by (simp add: handleEventReload_def reload_def)
    moreover have "cells_inv ((act (Logged ''BUG: nextSpec is nil'') r)\<lparr>spec := None\<rparr>)"
      using assms(1) by (intro inv_spec_update inv_log)
    ultimately show ?thesis by (rule inv_closeServer [rotated])
  qed
next
  case (Some n)
  define r1 where "r1 = (reloadRules n r)\<lparr>spec := Some n\<rparr>"
  have r1: "cells_inv r1"
    unfolding r1_def using assms(1) by (intro inv_spec_update inv_reloadRules)
  have sp: "spec (reloadRules n r) = spec r"
    by (simp add: reloadRules_def)
  show ?thesis
  proof (cases "spec r")
    case None
    with Some assms sp have "startServer en r1 = Inr r'"
      by (simp add: handleEventReload_def reload_def r1_def)
    with r1 show ?thesis by (rule inv_startServer)
  next
    case C: (Some c)
    show ?thesis
    proof (cases "c\<lparr>Rules := []\<rparr> \<noteq> n\<lparr>Rules := []\<rparr>")
      case True
      with Some C assms sp obtain r2 where
        "closeServer en r1 = Inr r2" "startServer en r2 = Inr r'"
        by (auto simp: handleEventReload_def reload_def r1_def needRestartServer_def
                 split: sum.splits)
      with r1 show ?thesis by (blast intro: inv_startServer inv_closeServer)
    next
      case False
      with Some C assms sp have "r' = r1"
        by (auto simp: handleEventReload_def reload_def r1_def needRestartServer_def)
      with r1 show ?thesis by simp
    qed
  qed
qed

lemma inv_close: "cells_inv r \<Longrightarrow> handleEventClose en r = Inr r' \<Longrightarrow> cells_inv r'"
  by (auto simp: handleEventClose_def cells_inv_def cells_def closeServer_def Let_def
           split: sum.splits option.splits)

lemma inv_check: "cells_inv r \<Longrightarrow> handleEventCheckFailed en r = Inr r' \<Longrightarrow> cells_inv r'"
  by (auto simp: handleEventCheckFailed_def dest: inv_startServer split: if_splits)

lemma inv_start: "cells_inv r \<Longrightarrow> handleEventStart en r = Inr r' \<Longrightarrow> cells_inv r'"
  by (auto simp: handleEventStart_def dest: inv_startServer)

lemma inv_fsm: "cells_inv r \<Longrightarrow> fsm es r = Inr l \<Longrightarrow> cells_inv (runtime_of l)"
  by (rule fsm_preserves [where I = cells_inv])
     (auto intro: inv_start inv_check inv_serve inv_reload inv_close inv_log)

subsection \<open>Transitions of the state\<close>

text \<open>
  C3, as the specification states it, fails: a first reload whose bind fails takes the
  state from uninitialized to failed, which is not one of the listed transitions.
\<close>

theorem state_edges_counterexample:
  "fsm [(envBusy, eventReload (Some spec8080))] newRuntime = Inr (Waiting failed8080) \<and>
   state newRuntime = stateNil \<and> state failed8080 = stateFailed \<and>
   (stateNil, stateFailed) \<notin> spec_edges"
  by (simp add: run_defs failed8080_def spec_edges_def)

text \<open>
  C3, amended. For a runtime reached from \<open>newRuntime\<close> whose loop is waiting, every
  event other than close either leaves the state as it is or moves it along one of
  uninitialized to running, uninitialized to failed, running to failed, failed to
  running. A close event makes the loop return, and the events behind it are not
  processed.
\<close>

theorem state_edges:
  assumes "fsm es newRuntime = Inr (Waiting r)"
  shows "(\<forall>en e l. e \<noteq> eventClose \<longrightarrow> fsm [(en, e)] r = Inr l \<longrightarrow>
            state (runtime_of l) = state r \<or>
            (state r, state (runtime_of l)) \<in>
              {(stateNil, stateRunning), (stateNil, stateFailed),
               (stateRunning, stateFailed), (stateFailed, stateRunning)}) \<and>
         (\<forall>en es' l. fsm ((en, eventClose) # es') r = Inr l \<longrightarrow> (\<exists>r'. l = Returned r' es'))"
proof -
  have "cells_inv (runtime_of (Waiting r))"
    using inv_newRuntime assms by (rule inv_fsm)
  then have nc: "state r \<noteq> stateClosed"
    by (simp add: cells_inv_def)
  have step: "state (runtime_of l) \<in> {state r, stateRunning, stateFailed}"
    if "fsm [(en, e)] r = Inr l" for en e l
  proof (rule fsm_preserves
           [where I = "\<lambda>x. state x \<in> {state r, stateRunning, stateFailed}", OF _ that])
    show "state r \<in> {state r, stateRunning, stateFailed}" by simp
  qed (auto simp: handleEventStart_def handleEventCheckFailed_def handleEventServeFailed_def
        handleEventReload_def reload_def reloadRules_def needRestartServer_def
        handleEventClose_def closeServer_def startServer_def Let_def
        split: option.splits if_splits sum.splits bool.splits)
  have "state (runtime_of l) = state r \<or>
        (state r, state (runtime_of l)) \<in>
          {(stateNil, stateRunning), (stateNil, stateFailed),
           (stateRunning, stateFailed), (stateFailed, stateRunning)}"
    if "fsm [(en, e)] r = Inr l" for en e l
    using step [OF that] nc by (cases "state r") auto
  moreover have "\<exists>r'. l = Returned r' es'"
    if "fsm ((en, eventClose) # es') r = Inr l" for en es' l
    using that by (rule fsm_close_returns)
  ultimately show ?thesis by blast
qed

theorem state_edges_witness:
  "fsm [(envOK, eventReload (Some spec8080))] newRuntime = Inr (Waiting running8080) \<and>
   eventServeFailed 1 (Some ''accept: too many open files'') \<noteq> eventClose \<and>
   fsm [(envOK, eventServeFailed 1 (Some ''accept: too many open files''))] running8080
     = Inr (Waiting (handleEventServeFailed 1 (Some ''accept: too many open files'') running8080)) \<and>
   state running8080 = stateRunning \<and>
   state (handleEventServeFailed 1 (Some ''accept: too many open files'') running8080)
     = stateFailed \<and>
   (state running8080,
    state (handleEventServeFailed 1 (Some ''accept: too many open files'') running8080))
     \<in> {(stateNil, stateRunning), (stateNil, stateFailed),
         (stateRunning, stateFailed), (stateFailed, stateRunning)}"
proof -
  have h: "fsm [(envOK, eventReload (Some spec8080))] newRuntime = Inr (Waiting running8080)"
    by (rule running8080_reached)
  have s: "state (handleEventServeFailed 1 (Some ''accept: too many open files'') running8080)
             = stateFailed"
    by (simp add: handleEventServeFailed_def running8080_def)
  have k: "state running8080 = stateRunning"
    by (simp add: running8080_def)
  from state_edges [OF h] h s k show ?thesis
    by simp
qed

subsection \<open>Reload\<close>

text \<open>
  C4. A reload whose next configuration equals the current one in every field but the
  rules stops no server and starts none: generation, server, state and error are
  unchanged; the configuration is replaced and the rules go to the mux.
\<close>

theorem reload_rules_only:
  assumes "spec r = Some x" and "y\<lparr>Rules := []\<rparr> = x\<lparr>Rules := []\<rparr>"
  shows "\<exists>r'. handleEventReload en (Some y) r = Inr r' \<and>
           startNum r' = startNum r \<and> server r' = server r \<and> state r' = state r \<and>
           err r' = err r \<and> spec r' = Some y \<and> mux r' = Rules y \<and>
           trace r' = trace r @ [ReloadRules y] \<and>
           r' = r\<lparr>spec := Some y, mux := Rules y, trace := trace r @ [ReloadRules y]\<rparr>"
  using assms
  by (simp add: handleEventReload_def reload_def reloadRules_def needRestartServer_def act_def)

theorem reload_rules_only_witness:
  "spec running8080 = Some spec8080 \<and>
   (spec8080\<lparr>Rules := [''/b'', ''/c'']\<rparr>)\<lparr>Rules := []\<rparr> = spec8080\<lparr>Rules := []\<rparr> \<and>
   handleEventReload envBusy (Some (spec8080\<lparr>Rules := [''/b'', ''/c'']\<rparr>)) running8080
     = Inr (running8080\<lparr>spec := Some (spec8080\<lparr>Rules := [''/b'', ''/c'']\<rparr>),
                        mux := [''/b'', ''/c''],
                        trace := trace running8080 @
                                 [ReloadRules (spec8080\<lparr>Rules := [''/b'', ''/c'']\<rparr>)]\<rparr>)"
  using reload_rules_only [of running8080 spec8080 "spec8080\<lparr>Rules := [''/b'', ''/c'']\<rparr>" envBusy]
  by (auto simp: running8080_def)

text \<open>
  C5, as the specification states it, fails: the runtime runs on port 8080 with
  generation 1, the reload asks for port 9090, the bind to 9090 fails, and the
  generation is still 1.
\<close>

theorem reload_restart_counterexample:
  "spec8080\<lparr>Rules := []\<rparr> \<noteq> spec9090\<lparr>Rules := []\<rparr> \<and>
   map_sum id (startNum \<circ> runtime_of)
     (fsm [(envOK, eventReload (Some spec8080))] newRuntime) = Inr 1 \<and>
   map_sum id (startNum \<circ> runtime_of)
     (fsm [(envOK, eventReload (Some spec8080)), (envBusy, eventReload (Some spec9090))]
        newRuntime) = Inr 1"
  by (simp add: run_defs)

text \<open>
  C5, amended. A reload whose next configuration differs from the current one in a
  field other than the rules shuts the present server down, if there is one, and then
  makes exactly one attempt to listen on the new port. If the bind succeeds, one
  serving goroutine is started, the generation goes up by exactly 1 and the state is
  running; if the bind fails, nothing is served, the generation is unchanged and the
  state is failed.
\<close>

theorem reload_restart:
  assumes "spec r = Some x" and "x\<lparr>Rules := []\<rparr> \<noteq> y\<lparr>Rules := []\<rparr>"
  shows "\<exists>r'. handleEventReload en (Some y) r = Inr r' \<and>
           take (length (trace r)) (trace r') = trace r \<and>
           filter server_op (drop (length (trace r)) (trace r')) =
             (case server r of None \<Rightarrow> [] | Some v \<Rightarrow> [Shutdown]) @ [Listen (Port y)] @
             (case listen en (Port y) of
                None \<Rightarrow> [Serve (HTTPS y) (startNum r + 1)] | Some e \<Rightarrow> []) \<and>
           startNum r' =
             (case listen en (Port y) of None \<Rightarrow> startNum r + 1 | Some e \<Rightarrow> startNum r) \<and>
           state r' =
             (case listen en (Port y) of None \<Rightarrow> stateRunning | Some e \<Rightarrow> stateFailed) \<and>
           spec r' = Some y"
  using assms
  by (auto simp: handleEventReload_def reload_def reloadRules_def needRestartServer_def
        closeServer_def startServer_def Let_def split: option.splits)

theorem reload_restart_witness:
  "spec running8080 = Some spec8080 \<and>
   spec8080\<lparr>Rules := []\<rparr> \<noteq> spec9090\<lparr>Rules := []\<rparr> \<and>
   (\<exists>r'. handleEventReload envOK (Some spec9090) running8080 = Inr r' \<and>
         take (length (trace running8080)) (trace r') = trace running8080 \<and>
         filter server_op (drop (length (trace running8080)) (trace r'))
           = [Shutdown, Listen 9090, Serve False 2] \<and>
         startNum r' = 2 \<and> state r' = stateRunning \<and> spec r' = Some spec9090)"
proof -
  have a: "spec running8080 = Some spec8080"
    by (simp add: running8080_def)
  have b: "spec8080\<lparr>Rules := []\<rparr> \<noteq> spec9090\<lparr>Rules := []\<rparr>"
    by (simp add: spec8080_def spec9090_def)
  have c: "server running8080 \<noteq> None" "startNum running8080 = 1"
    "listen envOK 9090 = None" "Port spec9090 = 9090" "HTTPS spec9090 = False"
    by (simp_all add: running8080_def envOK_def spec9090_def spec8080_def)
  from reload_restart [OF a b, of envOK] a b c show ?thesis
    by (auto split: option.splits)
qed

subsection \<open>The current configuration\<close>








subsection \<open>Start\<close>

text \<open>A keep-alive timeout string that parses becomes the idle timeout of the server.\<close>

lemma startServer_parsed_keepalive:
  assumes "spec r = Some s" and "KeepAliveTimeout s \<noteq> []"
    and "parseDuration en (KeepAliveTimeout s) = Some t" and "listen en (Port s) = None"
  shows "\<exists>r' srv. startServer en r = Inr r' \<and> server r' = Some srv \<and> IdleTimeout srv = t"
  using assms
  by (auto simp: startServer_def Let_def split: option.splits)

text \<open>
  C7. When the keep-alive timeout string of the configuration is empty or does not
  parse, \<open>startServer\<close> does not fail: it goes on with the default of 60 seconds
  (logging the string that does not parse) and makes its one attempt to listen on the
  configured port. If the bind succeeds, the new server has the default idle timeout,
  the generation goes up by 1, running and the empty error are stored and the serving
  goroutine is started, so the runtime ends in state running; if the bind fails, failed
  and the bind error are stored and nothing else changes.
\<close>

theorem start_default_keepalive:
  assumes "spec r = Some s"
    and "KeepAliveTimeout s = [] \<or> parseDuration en (KeepAliveTimeout s) = None"
  shows "startServer en r =
           Inr (case listen en (Port s) of
                  None \<Rightarrow>
                    r\<lparr>server := Some \<lparr>Addr = Port s, IdleTimeout = defaultKeepAliveTimeout,
                                       KeepAlivesEnabled = KeepAlive s,
                                       TLSConfig = (if HTTPS s
                                                    then Some (CertBase64 s, KeyBase64 s)
                                                    else None),
                                       Limit = MaxConnections s\<rparr>,
                      startNum := startNum r + 1,
                      state := stateRunning,
                      err := Some errNil,
                      trace := trace r @
                        (if KeepAliveTimeout s = [] then []
                         else [Logged ''BUG: parse duration failed'']) @
                        [Listen (Port s), StoreState stateRunning, StoreError errNil,
                         Serve (HTTPS s) (startNum r + 1)]\<rparr>
                | Some e \<Rightarrow>
                    r\<lparr>state := stateFailed,
                      err := Some e,
                      trace := trace r @
                        (if KeepAliveTimeout s = [] then []
                         else [Logged ''BUG: parse duration failed'']) @
                        [Listen (Port s), StoreState stateFailed, StoreError e]\<rparr>) \<and>
         defaultKeepAliveTimeout = 60 * 1000000000"
  using assms
  by (auto simp: startServer_def Let_def setState_def setError_def act_def
                 defaultKeepAliveTimeout_def split: option.splits)

theorem start_default_keepalive_witness:
  "spec (newRuntime\<lparr>spec := Some (spec8080\<lparr>KeepAliveTimeout := ''sixty''\<rparr>)\<rparr>)
     = Some (spec8080\<lparr>KeepAliveTimeout := ''sixty''\<rparr>) \<and>
   parseDuration envOK (KeepAliveTimeout (spec8080\<lparr>KeepAliveTimeout := ''sixty''\<rparr>)) = None \<and>
   parseDuration envBusy (KeepAliveTimeout (spec8080\<lparr>KeepAliveTimeout := ''sixty''\<rparr>)) = None \<and>
   startServer envOK (newRuntime\<lparr>spec := Some (spec8080\<lparr>KeepAliveTimeout := ''sixty''\<rparr>)\<rparr>)
     = Inr (newRuntime
            \<lparr>spec := Some (spec8080\<lparr>KeepAliveTimeout := ''sixty''\<rparr>),
             server := Some \<lparr>Addr = 8080, IdleTimeout = 60000000000, KeepAlivesEnabled = True,
                              TLSConfig = None, Limit = 100\<rparr>,
             startNum := 1, state := stateRunning, err := Some [],
             trace := [Logged ''BUG: parse duration failed'', Listen 8080,
                       StoreState stateRunning, StoreError [], Serve False 1]\<rparr>) \<and>
   startServer envBusy (newRuntime\<lparr>spec := Some (spec8080\<lparr>KeepAliveTimeout := ''sixty''\<rparr>)\<rparr>)
     = Inr (newRuntime
            \<lparr>spec := Some (spec8080\<lparr>KeepAliveTimeout := ''sixty''\<rparr>),
             state := stateFailed, err := Some ''address already in use'',
             trace := [Logged ''BUG: parse duration failed'', Listen 8080,
                       StoreState stateFailed, StoreError ''address already in use'']\<rparr>)"
proof -
  have a: "spec (newRuntime\<lparr>spec := Some (spec8080\<lparr>KeepAliveTimeout := ''sixty''\<rparr>)\<rparr>)
             = Some (spec8080\<lparr>KeepAliveTimeout := ''sixty''\<rparr>)"
    by simp
  have b: "parseDuration envOK (KeepAliveTimeout (spec8080\<lparr>KeepAliveTimeout := ''sixty''\<rparr>)) = None"
    by (simp add: envOK_def parse_example_def)
  have c: "parseDuration envBusy (KeepAliveTimeout (spec8080\<lparr>KeepAliveTimeout := ''sixty''\<rparr>)) = None"
    by (simp add: envBusy_def parse_example_def)
  from start_default_keepalive [OF a disjI2 [OF b]] start_default_keepalive [OF a disjI2 [OF c]]
       a b c
  show ?thesis
    by (simp add: envOK_def envBusy_def spec8080_def newRuntime_def errNil_def
                  defaultKeepAliveTimeout_def)
qed

subsection \<open>Status\<close>

text \<open>
  The actions of every handler keep \<open>window_inv\<close>: handlers only append to the trace,
  and the cells read running without the empty error only right after a store of
  running.
\<close>

lemma after_each_append [simp]:
  "after_each (xs @ ys) c = after_each xs c @ after_each ys (fold store xs c)"
  by (induction xs arbitrary: c) auto

lemma snapshots_after_each: "snapshots tr c = c # map snd (after_each tr c)"
  by (induction tr arbitrary: c) auto

lemma map_fst_after_each: "map fst (after_each tr c) = tr"
  by (induction tr arbitrary: c) auto

lemma length_after_each [simp]: "length (after_each tr c) = length tr"
  by (induction tr arbitrary: c) auto

lemma good_acts_append:
  "good_acts c (xs @ ys) \<longleftrightarrow> good_acts c xs \<and> good_acts (fold store xs c) ys"
  by (auto simp: good_acts_def)

lemma good_acts_quiet:
  assumes "\<not> torn c" and "fst c \<noteq> stateClosed"
    and "\<forall>a\<in>set lg. store a c = c"
  shows "good_acts c lg \<and> fold store lg c = c"
  using assms(3)
proof (induction lg)
  case Nil
  then show ?case by (simp add: good_acts_def)
next
  case (Cons a lg)
  then show ?case using assms(1,2) by (auto simp: good_acts_def)
qed

lemma good_acts_start_ok:
  "\<not> torn c \<Longrightarrow> fst c \<noteq> stateClosed \<Longrightarrow>
   good_acts c [Listen p, StoreState stateRunning, StoreError errNil, Serve h n]"
  by (cases c) (auto simp: good_acts_def torn_def)

lemma good_acts_start_failed:
  "\<not> torn c \<Longrightarrow> fst c \<noteq> stateClosed \<Longrightarrow>
   good_acts c [Listen p, StoreState stateFailed, StoreError e]"
  by (cases c) (auto simp: good_acts_def torn_def)

lemma good_acts_serve_failed:
  "good_acts c [StoreState stateFailed, StoreError e]"
  by (cases c) (auto simp: good_acts_def torn_def)

lemma window_extend:
  assumes "window_inv r" and "cells_inv r'" and "trace r' = trace r @ acts"
    and "good_acts (cells r) acts"
  shows "window_inv r'"
proof -
  have "fold store (trace r) (cells newRuntime) = cells r"
    using assms(1) by (simp add: window_inv_def cells_inv_def)
  then show ?thesis
    using assms by (auto simp: window_inv_def good_acts_def)
qed

lemma window_cells:
  "window_inv r \<Longrightarrow> \<not> torn (cells r) \<and> fst (cells r) \<noteq> stateClosed"
  by (auto simp: window_inv_def cells_inv_def torn_def cells_def)

lemma window_newRuntime: "window_inv newRuntime"
  by (simp add: window_inv_def inv_newRuntime) (simp add: newRuntime_def)

lemma window_quiet:
  assumes "window_inv r" and "cells_inv r'" and "trace r' = trace r @ lg"
    and "\<forall>a\<in>set lg. store a (cells r) = cells r"
  shows "window_inv r'"
  using assms window_cells [OF assms(1)] good_acts_quiet [of "cells r" lg]
  by (intro window_extend [OF assms(1,2,3)]) simp

lemma window_log: "window_inv r \<Longrightarrow> window_inv (act (Logged m) r)"
  by (rule window_quiet [where lg = "[Logged m]"])
     (auto simp: window_inv_def inv_log)

lemma window_spec_update: "window_inv r \<Longrightarrow> window_inv (r\<lparr>spec := s\<rparr>)"
  by (simp add: window_inv_def inv_spec_update)

lemma window_reloadRules: "window_inv r \<Longrightarrow> window_inv (reloadRules n r)"
  by (rule window_quiet [where lg = "[ReloadRules n]"])
     (auto simp: window_inv_def inv_reloadRules, simp add: reloadRules_def)

lemma startServer_acts:
  assumes "startServer en r = Inr r'"
  shows "\<exists>lg p h n e. trace r' = trace r @ lg @ [Listen p, StoreState stateRunning,
                                                 StoreError errNil, Serve h n] \<and>
                       (\<forall>a\<in>set lg. \<exists>m. a = Logged m) \<or>
                     trace r' = trace r @ lg @ [Listen p, StoreState stateFailed, StoreError e] \<and>
                       (\<forall>a\<in>set lg. \<exists>m. a = Logged m)"
proof -
  obtain s where s: "spec r = Some s"
    using assms by (auto simp: startServer_def split: option.splits)
  define lg where "lg = (if KeepAliveTimeout s \<noteq> [] \<and> parseDuration en (KeepAliveTimeout s) = None
                         then [Logged ''BUG: parse duration failed''] else [])"
  have lg: "\<forall>a\<in>set lg. \<exists>m. a = Logged m"
    by (simp add: lg_def)
  show ?thesis
  proof (cases "listen en (Port s)")
    case None
    with assms s have "trace r' = trace r @ lg @ [Listen (Port s), StoreState stateRunning,
                                                 StoreError errNil, Serve (HTTPS s) (startNum r + 1)]"
      by (auto simp: startServer_def Let_def lg_def split: option.splits if_splits)
    with lg show ?thesis by blast
  next
    case (Some e)
    with assms s have "trace r' = trace r @ lg @ [Listen (Port s), StoreState stateFailed, StoreError e]"
      by (auto simp: startServer_def Let_def lg_def split: option.splits if_splits)
    with lg show ?thesis by blast
  qed
qed

lemma window_startServer:
  assumes "window_inv r" and "startServer en r = Inr r'"
  shows "window_inv r'"
proof -
  have ci: "cells_inv r'"
    using assms by (auto simp: window_inv_def dest: inv_startServer)
  note wc = window_cells [OF assms(1)]
  from startServer_acts [OF assms(2)] obtain lg p h n e where
    lg: "\<forall>a\<in>set lg. \<exists>m. a = Logged m" and
    tr: "trace r' = trace r @ lg @ [Listen p, StoreState stateRunning, StoreError errNil, Serve h n]
         \<or> trace r' = trace r @ lg @ [Listen p, StoreState stateFailed, StoreError e]"
    by blast
  from lg have "\<forall>a\<in>set lg. store a (cells r) = cells r"
    by auto
  with wc have q: "good_acts (cells r) lg" "fold store lg (cells r) = cells r"
    using good_acts_quiet [of "cells r" lg] by auto
  from tr show ?thesis
  proof
    assume t: "trace r' = trace r @ lg @ [Listen p, StoreState stateRunning, StoreError errNil, Serve h n]"
    have "good_acts (cells r) (lg @ [Listen p, StoreState stateRunning, StoreError errNil, Serve h n])"
      using q wc by (simp add: good_acts_append good_acts_start_ok)
    with assms(1) ci t show ?thesis by (rule window_extend)
  next
    assume t: "trace r' = trace r @ lg @ [Listen p, StoreState stateFailed, StoreError e]"
    have "good_acts (cells r) (lg @ [Listen p, StoreState stateFailed, StoreError e])"
      using q wc by (simp add: good_acts_append good_acts_start_failed)
    with assms(1) ci t show ?thesis by (rule window_extend)
  qed
qed

lemma window_closeServer:
  assumes "window_inv r" and "closeServer en r = Inr r'"
  shows "window_inv r'"
proof -
  have ci: "cells_inv r'"
    using assms by (auto simp: window_inv_def dest: inv_closeServer)
  from assms(2) obtain lg where "trace r' = trace r @ lg"
    "\<forall>a\<in>set lg. a = Shutdown \<or> (\<exists>m. a = Logged m)"
    by (auto simp: closeServer_def Let_def split: option.splits)
  then show ?thesis
    by (intro window_quiet [OF assms(1) ci, of lg]) auto
qed

lemma window_serve: "window_inv r \<Longrightarrow> window_inv (handleEventServeFailed n e r)"
proof (cases "n < startNum r")
  case True
  assume "window_inv r"
  with True show ?thesis by (simp add: handleEventServeFailed_def)
next
  case False
  assume w: "window_inv r"
  then have "cells_inv (handleEventServeFailed n e r)"
    by (simp add: window_inv_def inv_serve)
  moreover have "trace (handleEventServeFailed n e r) = trace r @
      [StoreState stateFailed, StoreError (case e of None \<Rightarrow> errNil | Some x \<Rightarrow> x)]"
    using False by (simp add: handleEventServeFailed_def)
  ultimately show ?thesis
    by (rule window_extend [OF w _ _ good_acts_serve_failed])
qed

lemma reload_preserves:
  assumes log: "\<And>m r. I r \<Longrightarrow> I (act (Logged m) r)"
    and upd: "\<And>s r. I r \<Longrightarrow> I (r\<lparr>spec := s\<rparr>)"
    and rules: "\<And>n r. I r \<Longrightarrow> I (reloadRules n r)"
    and start: "\<And>en r r'. I r \<Longrightarrow> startServer en r = Inr r' \<Longrightarrow> I r'"
    and close: "\<And>en r r'. I r \<Longrightarrow> closeServer en r = Inr r' \<Longrightarrow> I r'"
    and init: "I r" and run: "handleEventReload en ns r = Inr r'"
  shows "I r'"
proof (cases ns)
  case None
  show ?thesis
  proof (cases "spec r")
    case N: None
    with None init run show ?thesis
      by (auto simp: handleEventReload_def reload_def intro: log)
  next
    case (Some c)
    with None run
    have "closeServer en ((act (Logged ''BUG: nextSpec is nil'') r)\<lparr>spec := None\<rparr>) = Inr r'"
      by (simp add: handleEventReload_def reload_def)
    moreover have "I ((act (Logged ''BUG: nextSpec is nil'') r)\<lparr>spec := None\<rparr>)"
      using init by (intro upd log)
    ultimately show ?thesis by (rule close [rotated])
  qed
next
  case (Some n)
  define r1 where "r1 = (reloadRules n r)\<lparr>spec := Some n\<rparr>"
  have r1: "I r1"
    unfolding r1_def using init by (intro upd rules)
  have sp: "spec (reloadRules n r) = spec r"
    by (simp add: reloadRules_def)
  show ?thesis
  proof (cases "spec r")
    case None
    with Some run sp have "startServer en r1 = Inr r'"
      by (simp add: handleEventReload_def reload_def r1_def)
    with r1 show ?thesis by (rule start)
  next
    case C: (Some c)
    show ?thesis
    proof (cases "c\<lparr>Rules := []\<rparr> \<noteq> n\<lparr>Rules := []\<rparr>")
      case True
      with Some C run sp obtain r2 where
        "closeServer en r1 = Inr r2" "startServer en r2 = Inr r'"
        by (auto simp: handleEventReload_def reload_def r1_def needRestartServer_def
                 split: sum.splits)
      with r1 show ?thesis by (blast intro: start close)
    next
      case False
      with Some C run sp have "r' = r1"
        by (auto simp: handleEventReload_def reload_def r1_def needRestartServer_def)
      with r1 show ?thesis by simp
    qed
  qed
qed

lemma window_reload: "window_inv r \<Longrightarrow> handleEventReload en ns r = Inr r' \<Longrightarrow> window_inv r'"
  by (rule reload_preserves [where I = window_inv])
     (auto intro: window_log window_spec_update window_reloadRules
                  window_startServer window_closeServer)

lemma window_close:
  assumes "window_inv r" and "handleEventClose en r = Inr r'"
  shows "window_inv r'"
proof -
  from assms(2) obtain r1 where c: "closeServer en r = Inr r1" and r': "r' = act CloseDone r1"
    by (auto simp: handleEventClose_def split: sum.splits)
  have "window_inv r1"
    using assms(1) c by (rule window_closeServer)
  moreover have "cells_inv r'"
    using assms by (auto simp: window_inv_def dest: inv_close)
  ultimately show ?thesis
    by (rule window_quiet [where lg = "[CloseDone]"]) (simp_all add: r')
qed

lemma window_start: "window_inv r \<Longrightarrow> handleEventStart en r = Inr r' \<Longrightarrow> window_inv r'"
  unfolding handleEventStart_def by (rule window_startServer)

lemma window_check:
  "window_inv r \<Longrightarrow> handleEventCheckFailed en r = Inr r' \<Longrightarrow> window_inv r'"
  unfolding handleEventCheckFailed_def
  by (cases "getState r = stateFailed") (auto dest: window_startServer)

lemma window_fsm:
  assumes "window_inv r" and "fsm es r = Inr l"
  shows "window_inv (runtime_of l)"
  using assms
  by (rule fsm_preserves [where I = window_inv])
     (erule window_start window_check window_serve window_reload window_close window_log,
      assumption?)+


lemma length_snapshots [simp]: "length (snapshots tr c) = Suc (length tr)"
  by (simp add: snapshots_after_each)

lemma nth_snapshots_end: "snapshots tr c ! length tr = fold store tr c"
  by (induction tr arbitrary: c) auto

lemma snapshot_cases:
  assumes "i < length (snapshots tr c)"
  shows "i = 0 \<and> snapshots tr c ! i = c \<or>
         0 < i \<and> i - 1 < length tr \<and> (tr ! (i - 1), snapshots tr c ! i) \<in> set (after_each tr c)"
proof (cases i)
  case 0
  then show ?thesis by (simp add: snapshots_after_each)
next
  case (Suc k)
  with assms have k: "k < length tr"
    by (simp add: snapshots_after_each)
  then have "after_each tr c ! k \<in> set (after_each tr c)"
    by simp
  moreover have "fst (after_each tr c ! k) = tr ! k"
    using k map_fst_after_each [of tr c] by (metis length_after_each nth_map)
  moreover have "snd (after_each tr c ! k) = snapshots tr c ! i"
    using k Suc by (simp add: snapshots_after_each)
  ultimately have "(tr ! k, snapshots tr c ! i) \<in> set (after_each tr c)"
    by (metis prod.collapse)
  with Suc k show ?thesis by simp
qed

text \<open>
  C8, as the specification states it, fails. The first bind fails, so the state is
  failed and the error is the bind error; the watchdog's check-failed event then starts
  the server, and \<open>startServer\<close> stores running before it stores the empty error. A
  status query whose two loads fall between these two stores (after 6 actions) returns
  state running together with the old error text. A status query also returns running
  with an error text when it loads the state of a running runtime before a serve-failed
  event is handled and the error after it (after 5 and after 7 actions).
\<close>

theorem status_torn_counterexample:
  "fsm [(envBusy, eventReload (Some spec8080)), (envOK, eventCheckFailed)] newRuntime
     = Inr (Waiting recovered8080) \<and>
   (stateRunning, Some ''address already in use'')
     \<in> set (snapshots (trace recovered8080) (cells newRuntime)) \<and>
   Status_at stateRunning (Some ''address already in use'')
     = Inr \<lparr>State = stateRunning, Error = ''address already in use''\<rparr> \<and>
   Status_loads (snapshots (trace recovered8080) (cells newRuntime)) 6 6
     = Some (Inr \<lparr>State = stateRunning, Error = ''address already in use''\<rparr>) \<and>
   fsm [(envOK, eventReload (Some spec8080)),
        (envOK, eventServeFailed 1 (Some ''accept failed''))] newRuntime
     = Inr (Waiting (handleEventServeFailed 1 (Some ''accept failed'') running8080)) \<and>
   Status_loads (snapshots (trace (handleEventServeFailed 1 (Some ''accept failed'') running8080))
                   (cells newRuntime)) 5 7
     = Some (Inr \<lparr>State = stateRunning, Error = ''accept failed''\<rparr>)"
  by (simp add: run_defs recovered8080_def Status_at_def Status_loads_def)

text \<open>
  C8, amended. For every runtime reached from \<open>newRuntime\<close>: a status query both of
  whose loads fall after the last processed event, when the event loop is not inside a
  handler, succeeds and never returns state running together with a non-empty error
  text; a status query whose two loads have no action of the event loop between them
  returns running with a non-empty error text only right after the store of running,
  that is between the two stores of \<open>startServer\<close>; and no status query returns state
  closed when a later one returns state running. (A query whose loads have stores
  between them can return running with a non-empty error text.)
\<close>

theorem status_observations:
  assumes "fsm es newRuntime = Inr l"
  shows "Status_loads (snapshots (trace (runtime_of l)) (cells newRuntime))
           (length (trace (runtime_of l))) (length (trace (runtime_of l)))
           = Some (runtime_Status (runtime_of l)) \<and>
         (\<exists>st. runtime_Status (runtime_of l) = Inr st \<and>
              (State st = stateRunning \<longrightarrow> Error st = [])) \<and>
         (\<forall>i st. Status_loads (snapshots (trace (runtime_of l)) (cells newRuntime)) i i
                    = Some (Inr st) \<longrightarrow>
                  State st = stateRunning \<longrightarrow> Error st \<noteq> [] \<longrightarrow>
                  0 < i \<and> trace (runtime_of l) ! (i - 1) = StoreState stateRunning) \<and>
         (\<forall>i j i' j' st st'.
            Status_loads (snapshots (trace (runtime_of l)) (cells newRuntime)) i j
              = Some (Inr st) \<longrightarrow>
            Status_loads (snapshots (trace (runtime_of l)) (cells newRuntime)) i' j'
              = Some (Inr st') \<longrightarrow>
            i \<le> i' \<longrightarrow> State st = stateClosed \<longrightarrow> State st' \<noteq> stateRunning)"
proof -
  define tr where "tr = trace (runtime_of l)"
  define snaps where "snaps = snapshots tr (cells newRuntime)"
  have w: "window_inv (runtime_of l)"
    using window_newRuntime assms by (rule window_fsm)
  then have ci: "cells_inv (runtime_of l)"
    by (simp add: window_inv_def)
  then have a: "\<exists>st. runtime_Status (runtime_of l) = Inr st \<and>
              (State st = stateRunning \<longrightarrow> Error st = [])"
    by (auto simp: cells_inv_def runtime_Status_def Status_at_def getError_def getState_def
                   errNil_def)
  have "snaps ! length tr = cells (runtime_of l)"
    using ci by (simp add: snaps_def tr_def nth_snapshots_end cells_inv_def)
  then have e: "Status_loads snaps (length tr) (length tr) = Some (runtime_Status (runtime_of l))"
    by (simp add: Status_loads_def snaps_def runtime_Status_def getState_def getError_def
                  cells_def)
  have each: "(torn c \<longrightarrow> a = StoreState stateRunning) \<and> fst c \<noteq> stateClosed"
    if "(a, c) \<in> set (after_each tr (cells newRuntime))" for a c
    using w that by (auto simp: window_inv_def tr_def)
  have c0: "\<not> torn (cells newRuntime)" "fst (cells newRuntime) \<noteq> stateClosed"
    by (simp_all add: torn_def cells_def newRuntime_def)
  have b: "0 < i \<and> tr ! (i - 1) = StoreState stateRunning"
    if "Status_loads snaps i i = Some (Inr st)" "State st = stateRunning" "Error st \<noteq> []"
    for i st
  proof -
    from that(1) have i: "i < length snaps" and st: "Status_at (fst (snaps ! i)) (snd (snaps ! i)) = Inr st"
      by (auto simp: Status_loads_def split: if_splits)
    from st that(2,3) have t: "torn (snaps ! i)"
      by (auto simp: Status_at_def torn_def errNil_def split: option.splits)
    from snapshot_cases [OF i [unfolded snaps_def]] show ?thesis
    proof (elim disjE conjE)
      assume "snapshots tr (cells newRuntime) ! i = cells newRuntime"
      with t c0 show ?thesis by (simp add: snaps_def)
    next
      assume p: "0 < i"
        "(tr ! (i - 1), snapshots tr (cells newRuntime) ! i) \<in> set (after_each tr (cells newRuntime))"
      from each [OF p(2)] t p(1) show ?thesis by (simp add: snaps_def)
    qed
  qed
  have nc: "State st \<noteq> stateClosed" if "Status_loads snaps i j = Some (Inr st)" for i j st
  proof -
    from that have i: "i < length snaps" and st: "State st = fst (snaps ! i)"
      by (auto simp: Status_loads_def Status_at_def split: if_splits option.splits)
    from snapshot_cases [OF i [unfolded snaps_def]] show ?thesis
    proof (elim disjE conjE)
      assume "snapshots tr (cells newRuntime) ! i = cells newRuntime"
      with st c0 show ?thesis by (simp add: snaps_def)
    next
      assume "(tr ! (i - 1), snapshots tr (cells newRuntime) ! i)
                \<in> set (after_each tr (cells newRuntime))"
      from each [OF this] st show ?thesis by (simp add: snaps_def)
    qed
  qed
  from a b nc e show ?thesis
    unfolding tr_def [symmetric] snaps_def [symmetric] by blast
qed

theorem status_observations_witness:
  "fsm [(envBusy, eventReload (Some spec8080)), (envOK, eventCheckFailed)] newRuntime
     = Inr (Waiting recovered8080) \<and>
   runtime_Status recovered8080 = Inr \<lparr>State = stateRunning, Error = []\<rparr> \<and>
   Status_loads (snapshots (trace recovered8080) (cells newRuntime)) 8 8
     = Some (Inr \<lparr>State = stateRunning, Error = []\<rparr>) \<and>
   Status_loads (snapshots (trace recovered8080) (cells newRuntime)) 6 6
     = Some (Inr \<lparr>State = stateRunning, Error = ''address already in use''\<rparr>) \<and>
   (0::nat) < 6 \<and> trace recovered8080 ! (6 - 1) = StoreState stateRunning"
proof -
  have h: "fsm [(envBusy, eventReload (Some spec8080)), (envOK, eventCheckFailed)] newRuntime
             = Inr (Waiting recovered8080)"
    by (simp add: run_defs recovered8080_def)
  have s: "runtime_Status recovered8080 = Inr \<lparr>State = stateRunning, Error = []\<rparr>"
    by (simp add: runtime_Status_def Status_at_def getState_def getError_def recovered8080_def
                  running8080_def errNil_def)
  have q: "Status_loads (snapshots (trace recovered8080) (cells newRuntime)) 6 6
             = Some (Inr \<lparr>State = stateRunning, Error = ''address already in use''\<rparr>)"
    by (simp add: run_defs recovered8080_def Status_at_def Status_loads_def)
  from status_observations [OF h] have
    "\<forall>i st. Status_loads (snapshots (trace recovered8080) (cells newRuntime)) i i
                = Some (Inr st) \<longrightarrow>
              State st = stateRunning \<longrightarrow> Error st \<noteq> [] \<longrightarrow>
              0 < i \<and> trace recovered8080 ! (i - 1) = StoreState stateRunning"
    by (simp only: runtime_of.simps) blast
  from this [rule_format, OF q]
  have w: "(0::nat) < 6 \<and> trace recovered8080 ! (6 - 1) = StoreState stateRunning"
    by simp
  have e: "Status_loads (snapshots (trace recovered8080) (cells newRuntime)) 8 8
             = Some (Inr \<lparr>State = stateRunning, Error = []\<rparr>)"
    by (simp add: run_defs recovered8080_def Status_at_def Status_loads_def)
  from h s q w e show ?thesis by blast
qed

text \<open>
  C9. After any sequence of events from \<open>newRuntime\<close> the error cell holds an error
  value, so \<open>Status\<close> does not panic, and the error text it reports is empty exactly
  when the cell holds the empty error \<open>errNil\<close>. The same holds between any two
  actions of the event loop: replaying the trace ends in the present cells, and a
  status query at each point of the replay succeeds. \<open>setError\<close> stores \<open>errNil\<close>
  for nil and the given error otherwise.
\<close>

theorem error_cell_never_nil:
  assumes "fsm es newRuntime = Inr l"
  shows "(\<exists>st. runtime_Status (runtime_of l) = Inr st \<and>
               (Error st = [] \<longleftrightarrow> getError (runtime_of l) = Some errNil)) \<and>
         last (snapshots (trace (runtime_of l)) (cells newRuntime)) = cells (runtime_of l) \<and>
         (\<forall>c\<in>set (snapshots (trace (runtime_of l)) (cells newRuntime)).
             \<exists>st. Status_at (fst c) (snd c) = Inr st) \<and>
         (\<forall>e r. getError (setError e r) = Some (case e of None \<Rightarrow> errNil | Some x \<Rightarrow> x))"
proof -
  have i: "cells_inv (runtime_of l)"
    using inv_newRuntime assms by (rule inv_fsm)
  then have a: "\<exists>st. runtime_Status (runtime_of l) = Inr st \<and>
               (Error st = [] \<longleftrightarrow> getError (runtime_of l) = Some errNil)"
    by (auto simp: cells_inv_def runtime_Status_def Status_at_def getError_def errNil_def)
  have "snd (cells newRuntime) \<noteq> None"
    by (simp add: cells_def newRuntime_def)
  from snapshots_err_stored [OF this]
  have b: "\<forall>c\<in>set (snapshots (trace (runtime_of l)) (cells newRuntime)).
             \<exists>st. Status_at (fst c) (snd c) = Inr st"
    by (auto simp: Status_at_def split: option.splits)
  have c: "\<forall>e r. getError (setError e r) = Some (case e of None \<Rightarrow> errNil | Some x \<Rightarrow> x)"
    by (simp add: getError_def)
  have d: "last (snapshots (trace (runtime_of l)) (cells newRuntime)) = cells (runtime_of l)"
    using i by (simp add: last_snapshots cells_inv_def)
  from a b c d show ?thesis by blast
qed

theorem error_cell_never_nil_witness:
  "fsm [(envBusy, eventReload (Some spec8080))] newRuntime = Inr (Waiting failed8080) \<and>
   runtime_Status failed8080
     = Inr \<lparr>State = stateFailed, Error = ''address already in use''\<rparr> \<and>
   (\<exists>st. runtime_Status failed8080 = Inr st \<and>
         (Error st = [] \<longleftrightarrow> getError failed8080 = Some errNil)) \<and>
   last (snapshots (trace failed8080) (cells newRuntime)) = cells failed8080 \<and>
   list_all (\<lambda>c. \<exists>st. Status_at (fst c) (snd c) = Inr st)
     (snapshots (trace failed8080) (cells newRuntime))"
proof -
  have h: "fsm [(envBusy, eventReload (Some spec8080))] newRuntime = Inr (Waiting failed8080)"
    by (simp add: run_defs failed8080_def)
  have s: "runtime_Status failed8080
             = Inr \<lparr>State = stateFailed, Error = ''address already in use''\<rparr>"
    by (simp add: runtime_Status_def Status_at_def getState_def getError_def failed8080_def)
  from error_cell_never_nil [OF h] have
    "(\<exists>st. runtime_Status failed8080 = Inr st \<and>
         (Error st = [] \<longleftrightarrow> getError failed8080 = Some errNil)) \<and>
     last (snapshots (trace failed8080) (cells newRuntime)) = cells failed8080 \<and>
     list_all (\<lambda>c. \<exists>st. Status_at (fst c) (snd c) = Inr st)
       (snapshots (trace failed8080) (cells newRuntime))"
    by (simp only: runtime_of.simps list_all_iff) blast
  with h s show ?thesis by blast
qed

section \<open>Properties of the python plugin configuration\<close>

text \<open>
  C10. \<open>Prepare\<close> returns an error exactly when the preparation of the embedded
  runner configuration fails or the trimmed version is neither "2" nor "3". When the
  base preparation succeeds, version "2" sets the command to python2 and version "3"
  to python3, the trimmed version is kept, and an interpreter that cannot be run gives
  a warning in the log and no error.
\<close>

theorem Prepare_error_iff:
  "(fst (Prepare bp ts run ns c) \<noteq> None \<longleftrightarrow>
      fst (bp (interpreterRunnerConfig c) ns) \<noteq> None \<or> ts (Version c) \<notin> {''2'', ''3''}) \<and>
   (fst (bp (interpreterRunnerConfig c) ns) = None \<longrightarrow>
      (ts (Version c) = ''2'' \<longrightarrow> cmd (fst (snd (Prepare bp ts run ns c))) = ''python2'') \<and>
      (ts (Version c) = ''3'' \<longrightarrow> cmd (fst (snd (Prepare bp ts run ns c))) = ''python3'') \<and>
      (ts (Version c) \<in> {''2'', ''3''} \<longrightarrow>
         Version (fst (snd (Prepare bp ts run ns c))) = ts (Version c) \<and>
         fst (Prepare bp ts run ns c) = None \<and>
         (snd (snd (Prepare bp ts run ns c)) \<noteq> [] \<longleftrightarrow>
            run (cmd (fst (snd (Prepare bp ts run ns c)))) [''-c'', []] \<noteq> None)))"
  by (auto simp: Prepare_def Let_def split: prod.splits option.splits)

theorem Prepare_error_iff_witness:
  "fst (Prepare (\<lambda>b ns. (None, b)) strings_TrimSpace
          (\<lambda>c as. Some ''executable file not found'') [''pipeline'']
          \<lparr>interpreterRunnerConfig = (),
           Version = [CHR 0xC2, CHR 0xA0, CHR 0x20, CHR ''3'', CHR 0x0A], cmd = []\<rparr>)
     = None \<and>
   cmd (fst (snd (Prepare (\<lambda>b ns. (None, b)) strings_TrimSpace
          (\<lambda>c as. Some ''executable file not found'') [''pipeline'']
          \<lparr>interpreterRunnerConfig = (),
           Version = [CHR 0xC2, CHR 0xA0, CHR 0x20, CHR ''3'', CHR 0x0A], cmd = []\<rparr>)))
     = ''python3'' \<and>
   snd (snd (Prepare (\<lambda>b ns. (None, b)) strings_TrimSpace
          (\<lambda>c as. Some ''executable file not found'') [''pipeline'']
          \<lparr>interpreterRunnerConfig = (),
           Version = [CHR 0xC2, CHR 0xA0, CHR 0x20, CHR ''3'', CHR 0x0A], cmd = []\<rparr>))
     \<noteq> [] \<and>
   strings_TrimSpace [CHR 0xC2, CHR 0xA0, CHR 0x20, CHR ''3'', CHR 0x0A] = ''3'' \<and>
   fst (Prepare (\<lambda>b ns. (None, b)) strings_TrimSpace (\<lambda>c as. None) [''pipeline'']
          \<lparr>interpreterRunnerConfig = (), Version = ''2.7'', cmd = []\<rparr>)
     = Some ''invalid python version''"
proof -
  have t: "strings_TrimSpace [CHR 0xC2, CHR 0xA0, CHR 0x20, CHR ''3'', CHR 0x0A] = ''3''"
    "strings_TrimSpace ''2.7'' = ''2.7''"
    by (simp_all add: strings_TrimSpace_def asciiSpace_def space2_def space3_def)
  from Prepare_error_iff [of "\<lambda>b ns. (None, b)" strings_TrimSpace
          "\<lambda>c as. Some ''executable file not found''" "[''pipeline'']"
          "\<lparr>interpreterRunnerConfig = (),
            Version = [CHR 0xC2, CHR 0xA0, CHR 0x20, CHR ''3'', CHR 0x0A], cmd = []\<rparr>"]
       Prepare_error_iff [of "\<lambda>b ns. (None, b)" strings_TrimSpace "\<lambda>c as. None" "[''pipeline'']"
          "\<lparr>interpreterRunnerConfig = (), Version = ''2.7'', cmd = []\<rparr>"] t
  show ?thesis by (auto simp: Prepare_def)
qed

end
